theory Spec2Isabelle
  imports Main
begin

section \<open>The bridging header as a preprocessor program\<close>

text \<open>
  The repository consists of one file, \<^verbatim>\<open>ios/GreenMobilityPass/GreenMobilityPass-Bridging-Header.h\<close>.
  It is a sequence of preprocessor lines. A line of a header is one of the following; the
  header itself uses only some of them, which is what several of the properties below are
  about.
\<close>

datatype line =
    Blank
  | Comment string
  | Ifndef string
  | Define string string
  | Undef string
  | Import string
  | Endif
  | Text string

text \<open>The name of the include-guard macro, lines 8, 9 and 17 of the file.\<close>

definition guard :: string where
  "guard = ''GreenMobilityPass_Bridging_Header_h''"

text \<open>
  The file, line by line (17 lines). A \<^verbatim>\<open>//\<close> comment carries the text after the two
  slashes. \<^verbatim>\<open>#define GreenMobilityPass_Bridging_Header_h\<close> has an empty replacement list.
  An \<^verbatim>\<open>#import <React/X.h>\<close> carries the path between the angle brackets. The last line is
  \<^verbatim>\<open>#endif\<close> followed by a block comment, which the preprocessor drops.
\<close>

definition header :: "line list" where
  "header =
    [ Comment [],
      Comment ''  GreenMobilityPass-Bridging-Header.h'',
      Comment ''  GreenMobilityPass'',
      Comment [],
      Comment ''  Bridging header for Swift/Objective-C interoperability'',
      Comment [],
      Blank,
      Ifndef guard,
      Define guard [],
      Blank,
      Import ''React/RCTBridgeModule.h'',
      Import ''React/RCTEventEmitter.h'',
      Import ''React/RCTViewManager.h'',
      Import ''React/RCTUtils.h'',
      Import ''React/RCTLog.h'',
      Blank,
      Endif ]"

section \<open>Preprocessing a translation unit\<close>

text \<open>
  The state of the preprocessor inside one translation unit:
  \<^item> \<open>macros\<close>: the macro table, from a macro's name to its replacement list;
  \<^item> \<open>imported\<close>: the framework headers brought in so far, in order. The React headers are
    not part of the repository; what such a header contributes to the translation unit is
    its family of symbols, which is visible exactly when the header is in this list;
  \<^item> \<open>emitted\<close>: the ordinary source text (declarations, definitions) passed on to the
    compiler;
  \<^item> \<open>executed\<close>: the directives carried out so far, those met in an active group, in
    order. Conditionals themselves are not recorded. It is the history of the run: no
    directive reads it.
\<close>

record pp_state =
  macros :: "string \<rightharpoonup> string"
  imported :: "string list"
  emitted :: "string list"
  executed :: "line list"

text \<open>The state at the start of a translation unit.\<close>

definition initial :: pp_state where
  "initial = \<lparr> macros = Map.empty, imported = [], emitted = [], executed = [] \<rparr>"

text \<open>
  A fatal error stops the compilation; the outcome keeps the state reached at that point.
\<close>

datatype error = FileNotFound string | EndifWithoutIf | UnterminatedConditional

datatype 'a outcome = Done 'a | Fatal error pp_state

text \<open>
  The stack of open conditionals, innermost first; an entry tells whether its group is
  taken. A line is carried out only when every open group is taken.
\<close>

fun active :: "bool list \<Rightarrow> bool" where
  "active [] = True"
| "active (b # st) = (b \<and> active st)"

definition record_line :: "line \<Rightarrow> pp_state \<Rightarrow> pp_state" where
  "record_line l s = s\<lparr>executed := executed s @ [l]\<rparr>"

text \<open>
  One line. \<^verbatim>\<open>#import\<close> first resolves the file (\<open>found\<close> tells which paths resolve on
  the search path of the build; a path that does not is a fatal error) and then brings the
  file in unless the translation unit already has it, which is the once-only rule of
  \<^verbatim>\<open>#import\<close>.
\<close>

fun directive ::
  "(string \<Rightarrow> bool) \<Rightarrow> line \<Rightarrow> bool list \<Rightarrow> pp_state \<Rightarrow> (bool list \<times> pp_state) outcome" where
  "directive found Blank st s = Done (st, s)"
| "directive found (Comment c) st s = Done (st, s)"
| "directive found (Ifndef m) st s = Done ((active st \<and> macros s m = None) # st, s)"
| "directive found Endif [] s = Fatal EndifWithoutIf s"
| "directive found Endif (b # st) s = Done (st, s)"
| "directive found (Define m v) st s =
     (if active st
      then Done (st, record_line (Define m v) (s\<lparr>macros := (macros s)(m \<mapsto> v)\<rparr>))
      else Done (st, s))"
| "directive found (Undef m) st s =
     (if active st
      then Done (st, record_line (Undef m) (s\<lparr>macros := (macros s)(m := None)\<rparr>))
      else Done (st, s))"
| "directive found (Import h) st s =
     (if \<not> active st then Done (st, s)
      else if \<not> found h then Fatal (FileNotFound h) s
      else if h \<in> set (imported s) then Done (st, record_line (Import h) s)
      else Done (st, record_line (Import h) (s\<lparr>imported := imported s @ [h]\<rparr>)))"
| "directive found (Text t) st s =
     (if active st
      then Done (st, record_line (Text t) (s\<lparr>emitted := emitted s @ [t]\<rparr>))
      else Done (st, s))"

text \<open>
  A file: its lines in order, stopping at the first fatal error. At the end of the file
  every conditional opened in it must have been closed.
\<close>

fun run :: "(string \<Rightarrow> bool) \<Rightarrow> line list \<Rightarrow> bool list \<Rightarrow> pp_state \<Rightarrow> pp_state outcome" where
  "run found [] st s = (if st = [] then Done s else Fatal UnterminatedConditional s)"
| "run found (l # ls) st s =
     (case directive found l st s of
        Fatal e s' \<Rightarrow> Fatal e s'
      | Done (st', s') \<Rightarrow> run found ls st' s')"

text \<open>Including the bridging header at some point of a translation unit.\<close>

definition include_header :: "(string \<Rightarrow> bool) \<Rightarrow> pp_state \<Rightarrow> pp_state outcome" where
  "include_header found s = run found header [] s"

text \<open>Including it twice in a row, and \<open>n\<close> times in a row.\<close>

definition include_twice :: "(string \<Rightarrow> bool) \<Rightarrow> pp_state \<Rightarrow> pp_state outcome" where
  "include_twice found s =
     (case include_header found s of
        Fatal e s' \<Rightarrow> Fatal e s'
      | Done s' \<Rightarrow> include_header found s')"

fun include_n :: "(string \<Rightarrow> bool) \<Rightarrow> nat \<Rightarrow> pp_state \<Rightarrow> pp_state outcome" where
  "include_n found 0 s = Done s"
| "include_n found (Suc n) s =
     (case include_header found s of
        Fatal e s' \<Rightarrow> Fatal e s'
      | Done s' \<Rightarrow> include_n found n s')"

text \<open>The state an outcome ends in.\<close>

fun final_state :: "pp_state outcome \<Rightarrow> pp_state" where
  "final_state (Done s) = s"
| "final_state (Fatal e s) = s"

section \<open>What the properties speak about\<close>

text \<open>
  The five symbol families of the React Native bridge, named by their headers: the
  native-module base, the event-emitter base, the view-manager base, the native utility
  helpers and native logging.
\<close>

definition react_headers :: "string list" where
  "react_headers =
    [ ''React/RCTBridgeModule.h'',
      ''React/RCTEventEmitter.h'',
      ''React/RCTViewManager.h'',
      ''React/RCTUtils.h'',
      ''React/RCTLog.h'' ]"

text \<open>The import directives of a file, and the paths they name.\<close>

fun is_import :: "line \<Rightarrow> bool" where
  "is_import (Import h) = True"
| "is_import l = False"

fun imports_of :: "line list \<Rightarrow> string list" where
  "imports_of [] = []"
| "imports_of (Import h # ls) = h # imports_of ls"
| "imports_of (l # ls) = imports_of ls"

text \<open>Comments and blank lines, and the three lines of the include guard.\<close>

fun is_comment :: "line \<Rightarrow> bool" where
  "is_comment Blank = True"
| "is_comment (Comment c) = True"
| "is_comment l = False"

definition guard_lines :: "line list" where
  "guard_lines = [Ifndef guard, Define guard [], Endif]"

text \<open>
  The directives of the guarded group, as they are recorded when the group is carried
  out: lines 9 and 11 to 15 of the file.
\<close>

definition guarded_body :: "line list" where
  "guarded_body = Define guard [] # map Import react_headers"

text \<open>
  A framework header is brought in at most once; a header not yet in the translation
  unit is added at the end.
\<close>

definition add_import :: "string \<Rightarrow> string list \<Rightarrow> string list" where
  "add_import h hs = (if h \<in> set hs then hs else hs @ [h])"

text \<open>
  A run of import directives met in an active group, one after the other: what
  \<open>run\<close> does on such a run of lines (lemma \<open>run_imports\<close> below).
\<close>

fun import_all :: "(string \<Rightarrow> bool) \<Rightarrow> string list \<Rightarrow> pp_state \<Rightarrow> pp_state outcome" where
  "import_all found [] s = Done s"
| "import_all found (h # hs) s =
     (if \<not> found h then Fatal (FileNotFound h) s
      else import_all found hs
             (record_line (Import h) (s\<lparr>imported := add_import h (imported s)\<rparr>)))"

text \<open>A build in which every path resolves.\<close>

definition resolves_all :: "string \<Rightarrow> bool" where
  "resolves_all h = True"


section \<open>A translation unit that includes the header\<close>

text \<open>
  A translation unit, as far as the header is concerned: lines of its own, and points at
  which it includes the bridging header.
\<close>

datatype item = Include_header | Own line

text \<open>
  The items of a unit in order, under the unit's own stack of open conditionals. A line
  of the unit's own is one \<open>directive\<close>; an inclusion met in an active group is
  \<open>include_header\<close>, and one met in a group that is not taken is skipped.
\<close>

fun unit_steps ::
  "(string \<Rightarrow> bool) \<Rightarrow> item list \<Rightarrow> bool list \<Rightarrow> pp_state \<Rightarrow> (bool list \<times> pp_state) outcome" where
  "unit_steps found [] st s = Done (st, s)"
| "unit_steps found (Own l # us) st s =
     (case directive found l st s of
        Fatal e s' \<Rightarrow> Fatal e s'
      | Done (st', s') \<Rightarrow> unit_steps found us st' s')"
| "unit_steps found (Include_header # us) st s =
     (if active st
      then (case include_header found s of
              Fatal e s' \<Rightarrow> Fatal e s'
            | Done s' \<Rightarrow> unit_steps found us st s')
      else unit_steps found us st s)"

text \<open>The whole unit, from its first item to its end.\<close>

definition unit_run :: "(string \<Rightarrow> bool) \<Rightarrow> item list \<Rightarrow> pp_state \<Rightarrow> pp_state outcome" where
  "unit_run found us s =
     (case unit_steps found us [] s of
        Fatal e s' \<Rightarrow> Fatal e s'
      | Done (st, s') \<Rightarrow> if st = [] then Done s' else Fatal UnterminatedConditional s')"

text \<open>
  An inclusion processes the guarded group when it carries out a directive, that is,
  when it adds to the history of the run.
\<close>

definition body_processed :: "(string \<Rightarrow> bool) \<Rightarrow> pp_state \<Rightarrow> bool" where
  "body_processed found s = (executed (final_state (include_header found s)) \<noteq> executed s)"

text \<open>
  The number of inclusions, in running the items of a unit, that process the guarded
  group. It follows \<open>unit_steps\<close> item by item and stops where that stops.
\<close>

fun body_runs :: "(string \<Rightarrow> bool) \<Rightarrow> item list \<Rightarrow> bool list \<Rightarrow> pp_state \<Rightarrow> nat" where
  "body_runs found [] st s = 0"
| "body_runs found (Own l # us) st s =
     (case directive found l st s of
        Fatal e s' \<Rightarrow> 0
      | Done (st', s') \<Rightarrow> body_runs found us st' s')"
| "body_runs found (Include_header # us) st s =
     (if active st
      then (if body_processed found s then 1 else 0) +
           (case include_header found s of
              Fatal e s' \<Rightarrow> 0
            | Done s' \<Rightarrow> body_runs found us st s')
      else body_runs found us st s)"

section \<open>Lemmas on one inclusion\<close>

lemma include_guard_defined:
  assumes "macros s guard \<noteq> None"
  shows "include_header found s = Done s"
proof -
  from assms obtain v where "macros s guard = Some v" by auto
  then show ?thesis by (simp add: include_header_def header_def)
qed

lemma imports_header: "imports_of header = react_headers"
  by (simp add: header_def react_headers_def)

lemma run_imports:
  "active st \<Longrightarrow>
   run found (map Import hs @ rest) st s =
     (case import_all found hs s of
        Fatal e s' \<Rightarrow> Fatal e s'
      | Done s' \<Rightarrow> run found rest st s')"
proof (induction hs arbitrary: s)
  case Nil
  then show ?case by simp
next
  case (Cons h hs)
  then show ?case by (simp add: add_import_def)
qed

lemma header_split:
  "header =
     [Comment [], Comment ''  GreenMobilityPass-Bridging-Header.h'',
      Comment ''  GreenMobilityPass'', Comment [],
      Comment ''  Bridging header for Swift/Objective-C interoperability'',
      Comment [], Blank, Ifndef guard, Define guard [], Blank]
     @ (map Import react_headers @ [Blank, Endif])"
  by (simp add: header_def react_headers_def)

lemma include_guard_undefined:
  assumes "macros s guard = None"
  shows "include_header found s =
           import_all found react_headers
             (record_line (Define guard []) (s\<lparr>macros := (macros s)(guard \<mapsto> [])\<rparr>))"
proof -
  let ?s1 = "record_line (Define guard []) (s\<lparr>macros := (macros s)(guard \<mapsto> [])\<rparr>)"
  have "include_header found s = run found (map Import react_headers @ [Blank, Endif]) [True] ?s1"
    unfolding include_header_def header_split using assms by simp
  also have "\<dots> = (case import_all found react_headers ?s1 of
        Fatal e s' \<Rightarrow> Fatal e s'
      | Done s' \<Rightarrow> run found [Blank, Endif] [True] s')"
    by (rule run_imports) simp
  also have "\<dots> = import_all found react_headers ?s1"
    by (cases "import_all found react_headers ?s1") simp_all
  finally show ?thesis .
qed

subsection \<open>Runs of imports\<close>

lemma import_all_macros: "macros (final_state (import_all found hs s)) = macros s"
  by (induction hs arbitrary: s) (simp_all add: record_line_def)

lemma import_all_emitted: "emitted (final_state (import_all found hs s)) = emitted s"
  by (induction hs arbitrary: s) (simp_all add: record_line_def)

lemma import_all_executed:
  "\<exists>k. executed (final_state (import_all found hs s)) = executed s @ take k (map Import hs)"
proof (induction hs arbitrary: s)
  case Nil
  then show ?case by simp
next
  case (Cons h hs)
  show ?case
  proof (cases "found h")
    case False
    then have "executed (final_state (import_all found (h # hs) s))
                 = executed s @ take 0 (map Import (h # hs))"
      by simp
    then show ?thesis by blast
  next
    case True
    let ?s1 = "record_line (Import h) (s\<lparr>imported := add_import h (imported s)\<rparr>)"
    from Cons.IH [of ?s1] obtain k where
      "executed (final_state (import_all found hs ?s1)) = executed ?s1 @ take k (map Import hs)"
      by blast
    with True have "executed (final_state (import_all found (h # hs) s))
                 = executed s @ take (Suc k) (map Import (h # hs))"
      by (simp add: record_line_def)
    then show ?thesis by blast
  qed
qed

lemma set_fold_add_import: "set (fold add_import hs xs) = set xs \<union> set hs"
  by (induction hs arbitrary: xs) (auto simp: add_import_def)

lemma distinct_fold_add_import: "distinct xs \<Longrightarrow> distinct (fold add_import hs xs)"
  by (induction hs arbitrary: xs) (auto simp: add_import_def)

lemma import_all_imported:
  "\<exists>k. imported (final_state (import_all found hs s)) = fold add_import (take k hs) (imported s)"
proof (induction hs arbitrary: s)
  case Nil
  then show ?case by simp
next
  case (Cons h hs)
  show ?case
  proof (cases "found h")
    case False
    then have "imported (final_state (import_all found (h # hs) s))
                 = fold add_import (take 0 (h # hs)) (imported s)"
      by simp
    then show ?thesis by blast
  next
    case True
    let ?s1 = "record_line (Import h) (s\<lparr>imported := add_import h (imported s)\<rparr>)"
    from Cons.IH [of ?s1] obtain k where
      "imported (final_state (import_all found hs ?s1)) = fold add_import (take k hs) (imported ?s1)"
      by blast
    with True have "imported (final_state (import_all found (h # hs) s))
                 = fold add_import (take (Suc k) (h # hs)) (imported s)"
      by (simp add: record_line_def)
    then show ?thesis by blast
  qed
qed

lemma import_all_found:
  "\<forall>h\<in>set hs. found h \<Longrightarrow>
   import_all found hs s =
     Done (s\<lparr>imported := fold add_import hs (imported s),
             executed := executed s @ map Import hs\<rparr>)"
  by (induction hs arbitrary: s) (simp_all add: record_line_def)


subsection \<open>One inclusion, in full\<close>

lemma include_macros:
  "macros (final_state (include_header found s)) =
     (if macros s guard = None then (macros s)(guard \<mapsto> []) else macros s)"
  by (simp add: include_guard_defined include_guard_undefined import_all_macros record_line_def)

lemma include_emitted: "emitted (final_state (include_header found s)) = emitted s"
proof (cases "macros s guard = None")
  case True
  then show ?thesis
    by (simp add: include_guard_undefined import_all_emitted record_line_def)
next
  case False
  then show ?thesis by (simp add: include_guard_defined)
qed

lemma include_executed:
  "\<exists>k. executed (final_state (include_header found s)) = executed s @ take k guarded_body"
proof (cases "macros s guard = None")
  case True
  let ?s1 = "record_line (Define guard []) (s\<lparr>macros := (macros s)(guard \<mapsto> [])\<rparr>)"
  from import_all_executed [of found react_headers ?s1] obtain k where
    "executed (final_state (import_all found react_headers ?s1))
       = executed ?s1 @ take k (map Import react_headers)"
    by blast
  with True have "executed (final_state (include_header found s))
       = executed s @ take (Suc k) guarded_body"
    by (simp add: include_guard_undefined guarded_body_def record_line_def)
  then show ?thesis by blast
next
  case False
  then have "executed (final_state (include_header found s)) = executed s @ take 0 guarded_body"
    by (simp add: include_guard_defined)
  then show ?thesis by blast
qed

lemma include_imported:
  "\<exists>k. imported (final_state (include_header found s))
         = fold add_import (take k react_headers) (imported s)"
proof (cases "macros s guard = None")
  case True
  let ?s1 = "record_line (Define guard []) (s\<lparr>macros := (macros s)(guard \<mapsto> [])\<rparr>)"
  from import_all_imported [of found react_headers ?s1] obtain k where
    "imported (final_state (import_all found react_headers ?s1))
       = fold add_import (take k react_headers) (imported ?s1)"
    by blast
  with True have "imported (final_state (include_header found s))
       = fold add_import (take k react_headers) (imported s)"
    by (simp add: include_guard_undefined record_line_def)
  then show ?thesis by blast
next
  case False
  then have "imported (final_state (include_header found s))
       = fold add_import (take 0 react_headers) (imported s)"
    by (simp add: include_guard_defined)
  then show ?thesis by blast
qed

lemma include_Done_guard:
  assumes "include_header found s = Done s'"
  shows "macros s' guard \<noteq> None"
proof -
  have "macros (final_state (include_header found s)) guard \<noteq> None"
    by (simp add: include_macros)
  with assms show ?thesis by simp
qed

lemma include_all_found:
  assumes "macros s guard = None" and "\<forall>h\<in>set react_headers. found h"
  shows "include_header found s =
    Done (s\<lparr>macros := (macros s)(guard \<mapsto> []),
            imported := fold add_import react_headers (imported s),
            executed := executed s @ guarded_body\<rparr>)"
  using assms
  by (simp add: include_guard_undefined import_all_found record_line_def guarded_body_def)


lemma include_initial:
  "include_header resolves_all initial =
     Done \<lparr>macros = [guard \<mapsto> []], imported = react_headers, emitted = [],
           executed = guarded_body\<rparr>"
  by (simp add: include_header_def header_def initial_def react_headers_def
      guarded_body_def record_line_def resolves_all_def)

lemma include_n_guard_defined:
  "macros s guard \<noteq> None \<Longrightarrow> include_n found n s = Done s"
  by (induction n) (simp_all add: include_guard_defined)


subsection \<open>Repeated inclusion and the guard macro\<close>

lemma directive_keeps_macro:
  assumes "l \<noteq> Undef m" and "macros s m \<noteq> None"
  shows "case directive found l st s of
           Done (st', s') \<Rightarrow> macros s' m \<noteq> None
         | Fatal e s' \<Rightarrow> macros s' m \<noteq> None"
proof (cases l)
  case Endif
  with assms show ?thesis by (cases st) simp_all
qed (use assms in \<open>simp_all add: record_line_def\<close>)




subsection \<open>Inclusions inside a translation unit\<close>

lemma directive_Done_keeps_macro:
  assumes "l \<noteq> Undef m" and "macros s m \<noteq> None" and "directive found l st s = Done (st', s')"
  shows "macros s' m \<noteq> None"
  using directive_keeps_macro [OF assms(1,2), of found st] assms(3) by simp

lemma unit_steps_keeps_guard:
  "macros s guard \<noteq> None \<Longrightarrow> Own (Undef guard) \<notin> set us \<Longrightarrow>
   unit_steps found us st s = Done (st', s') \<Longrightarrow> macros s' guard \<noteq> None"
proof (induction us arbitrary: st s)
  case Nil
  then show ?case by simp
next
  case (Cons u us)
  show ?case
  proof (cases u)
    case Include_header
    from Cons.prems(1) have "include_header found s = Done s"
      by (rule include_guard_defined)
    with Cons.prems Include_header have "unit_steps found us st s = Done (st', s')"
      by (simp split: if_splits)
    with Cons.IH Cons.prems show ?thesis by simp
  next
    case (Own l)
    with Cons.prems(2) have l: "l \<noteq> Undef guard" and us: "Own (Undef guard) \<notin> set us"
      by auto
    from Cons.prems(3) Own obtain st1 s1 where
      d: "directive found l st s = Done (st1, s1)" and r: "unit_steps found us st1 s1 = Done (st', s')"
      by (auto split: outcome.splits)
    from l Cons.prems(1) d have "macros s1 guard \<noteq> None"
      by (rule directive_Done_keeps_macro)
    from Cons.IH [OF this us r] show ?thesis .
  qed
qed

lemma not_body_processed: "macros s guard \<noteq> None \<Longrightarrow> \<not> body_processed found s"
  by (simp add: body_processed_def include_guard_defined)

lemma body_runs_guard_defined:
  "macros s guard \<noteq> None \<Longrightarrow> Own (Undef guard) \<notin> set us \<Longrightarrow> body_runs found us st s = 0"
proof (induction us arbitrary: st s)
  case Nil
  then show ?case by simp
next
  case (Cons u us)
  show ?case
  proof (cases u)
    case Include_header
    from Cons.prems(1) have "include_header found s = Done s"
      by (rule include_guard_defined)
    moreover from Cons.prems(1) have "\<not> body_processed found s"
      by (rule not_body_processed)
    moreover from Cons.IH Cons.prems have "body_runs found us st s = 0" by simp
    ultimately show ?thesis using Include_header by simp
  next
    case (Own l)
    with Cons.prems(2) have l: "l \<noteq> Undef guard" and us: "Own (Undef guard) \<notin> set us"
      by auto
    show ?thesis
    proof (cases "directive found l st s")
      case (Fatal e s1)
      with Own show ?thesis by simp
    next
      case (Done p)
      obtain st1 s1 where p: "p = (st1, s1)" by (cases p)
      with Done have d: "directive found l st s = Done (st1, s1)" by simp
      from l Cons.prems(1) d have "macros s1 guard \<noteq> None"
        by (rule directive_Done_keeps_macro)
      from Cons.IH [OF this us] have "body_runs found us st1 s1 = 0" .
      with Own d show ?thesis by simp
    qed
  qed
qed

lemma body_runs_le_one:
  "Own (Undef guard) \<notin> set us \<Longrightarrow> body_runs found us st s \<le> 1"
proof (induction us arbitrary: st s)
  case Nil
  then show ?case by simp
next
  case (Cons u us)
  show ?case
  proof (cases u)
    case Include_header
    from Cons.prems have us: "Own (Undef guard) \<notin> set us" by simp
    show ?thesis
    proof (cases "active st")
      case False
      with Include_header Cons.IH [OF us] show ?thesis by simp
    next
      case True
      have rest: "(case include_header found s of
              Fatal e s' \<Rightarrow> 0
            | Done s' \<Rightarrow> body_runs found us st s') = 0"
      proof (cases "include_header found s")
        case (Done s1)
        then have "macros s1 guard \<noteq> None" by (rule include_Done_guard)
        then have "body_runs found us st s1 = 0" using us by (rule body_runs_guard_defined)
        with Done show ?thesis by simp
      next
        case (Fatal e s1)
        then show ?thesis by simp
      qed
      with True Include_header show ?thesis by simp
    qed
  next
    case (Own l)
    with Cons.prems have us: "Own (Undef guard) \<notin> set us" by simp
    show ?thesis
    proof (cases "directive found l st s")
      case (Fatal e s1)
      with Own show ?thesis by simp
    next
      case (Done p)
      obtain st1 s1 where "p = (st1, s1)" by (cases p)
      with Done Own Cons.IH [OF us, of st1 s1] show ?thesis by simp
    qed
  qed
qed

lemma unit_undef_after_include:
  "unit_run resolves_all [Include_header, Own (Undef guard)] initial =
     Done \<lparr>macros = Map.empty, imported = react_headers, emitted = [],
           executed = guarded_body @ [Undef guard]\<rparr>"
  by (simp add: unit_run_def include_initial record_line_def)

lemma include_after_undef:
  "include_header resolves_all
       \<lparr>macros = Map.empty, imported = react_headers, emitted = [],
         executed = guarded_body @ [Undef guard]\<rparr> =
     Done \<lparr>macros = [guard \<mapsto> []], imported = react_headers, emitted = [],
           executed = guarded_body @ [Undef guard] @ guarded_body\<rparr>"
  by (simp add: include_header_def header_def react_headers_def
      guarded_body_def record_line_def resolves_all_def)

lemma unit_steps_example:
  "unit_steps resolves_all [Own (Text ''int x;''), Include_header, Own (Define ''DEBUG'' ''1'')] []
       \<lparr>macros = [guard \<mapsto> []], imported = react_headers, emitted = [],
         executed = guarded_body\<rparr> =
     Done ([], \<lparr>macros = [guard \<mapsto> [], ''DEBUG'' \<mapsto> ''1''], imported = react_headers,
                emitted = [''int x;''],
                executed = guarded_body @ [Text ''int x;'', Define ''DEBUG'' ''1'']\<rparr>)"
  by (simp add: record_line_def include_guard_defined)

lemma body_processed_initial: "body_processed resolves_all initial"
proof -
  have "guarded_body \<noteq> []" by (simp add: guarded_body_def)
  moreover have "executed initial = []" by (simp add: initial_def)
  ultimately show ?thesis by (simp add: body_processed_def include_initial)
qed

lemma body_processed_after_undef:
  "body_processed resolves_all
       \<lparr>macros = Map.empty, imported = react_headers, emitted = [],
         executed = guarded_body @ [Undef guard]\<rparr>"
proof -
  have "guarded_body \<noteq> []" by (simp add: guarded_body_def)
  then show ?thesis by (simp add: body_processed_def include_after_undef)
qed

section \<open>The properties\<close>

text \<open>
  C1. Including the header twice in a row has the same outcome as including it once, from
  every state of every translation unit and in every build: it succeeds when the single
  inclusion does, and ends in the same state, hence with the same families visible. No
  family is brought in twice: a list of imported headers free of duplicates stays so.
\<close>
theorem include_twice_idempotent:
  "include_twice found s = include_header found s \<and>
   (distinct (imported s) \<longrightarrow> distinct (imported (final_state (include_twice found s))))"
proof -
  have eq: "include_twice found s = include_header found s"
  proof (cases "include_header found s")
    case (Done s')
    then show ?thesis
      by (simp add: include_twice_def include_guard_defined include_Done_guard)
  next
    case (Fatal e s')
    then show ?thesis by (simp add: include_twice_def)
  qed
  obtain k where "imported (final_state (include_header found s))
      = fold add_import (take k react_headers) (imported s)"
    using include_imported by blast
  then have "distinct (imported s) \<longrightarrow> distinct (imported (final_state (include_header found s)))"
    by (simp add: distinct_fold_add_import)
  with eq show ?thesis by simp
qed

theorem include_twice_idempotent_witness:
  "include_twice resolves_all initial =
     Done \<lparr>macros = [guard \<mapsto> []], imported = react_headers, emitted = [],
           executed = guarded_body\<rparr> \<and>
   distinct (imported initial) \<and>
   distinct (imported (final_state (include_twice resolves_all initial)))"
proof -
  have d: "distinct (imported initial)" by (simp add: initial_def)
  from include_twice_idempotent [of resolves_all initial] d
  have t: "include_twice resolves_all initial = include_header resolves_all initial"
    and dd: "distinct (imported (final_state (include_twice resolves_all initial)))"
    by blast+
  from t include_initial have "include_twice resolves_all initial =
     Done \<lparr>macros = [guard \<mapsto> []], imported = react_headers, emitted = [],
           executed = guarded_body\<rparr>"
    by (rule trans)
  with d dd show ?thesis by blast
qed

text \<open>
  C2. Where the guard macro is not defined and the five React headers resolve, one
  inclusion succeeds and adds exactly the five families to those visible; in a translation
  unit that had none, the visible families are the five, in the order of the file.
\<close>
theorem single_inclusion_visible:
  assumes "macros s guard = None" and "\<forall>h\<in>set react_headers. found h"
  shows "\<exists>s'. include_header found s = Done s' \<and>
              set (imported s') = set (imported s) \<union> set react_headers \<and>
              (imported s = [] \<longrightarrow> imported s' = react_headers)"
proof -
  let ?s' = "s\<lparr>macros := (macros s)(guard \<mapsto> []),
            imported := fold add_import react_headers (imported s),
            executed := executed s @ guarded_body\<rparr>"
  have "include_header found s = Done ?s'"
    using assms by (rule include_all_found)
  moreover have "set (imported ?s') = set (imported s) \<union> set react_headers"
    by (simp add: set_fold_add_import)
  moreover have "imported s = [] \<longrightarrow> imported ?s' = react_headers"
    by (simp add: react_headers_def add_import_def)
  ultimately show ?thesis by blast
qed

theorem single_inclusion_visible_witness:
  "macros initial guard = None \<and> list_all resolves_all react_headers \<and>
   (\<exists>s'. include_header resolves_all initial = Done s' \<and>
         set (imported s') =
           {''React/RCTBridgeModule.h'', ''React/RCTEventEmitter.h'',
            ''React/RCTViewManager.h'', ''React/RCTUtils.h'', ''React/RCTLog.h''} \<and>
         imported s' = react_headers)"
proof -
  have h1: "macros initial guard = None" by (simp add: initial_def)
  have l: "list_all resolves_all react_headers"
    by (simp add: react_headers_def resolves_all_def)
  then have h2: "\<forall>h\<in>set react_headers. resolves_all h" by (simp add: list_all_iff)
  have i: "imported initial = []" by (simp add: initial_def)
  from single_inclusion_visible [OF h1 h2] obtain s' where
    "include_header resolves_all initial = Done s'"
    "set (imported s') = set (imported initial) \<union> set react_headers"
    "imported initial = [] \<longrightarrow> imported s' = react_headers"
    by blast
  with i have "include_header resolves_all initial = Done s' \<and>
         set (imported s') =
           {''React/RCTBridgeModule.h'', ''React/RCTEventEmitter.h'',
            ''React/RCTViewManager.h'', ''React/RCTUtils.h'', ''React/RCTLog.h''} \<and>
         imported s' = react_headers"
    by (simp add: react_headers_def)
  with h1 l show ?thesis by blast
qed

text \<open>
  C3. The header does not have four import directives, and including it at the start of a
  translation unit does not make four families visible.
\<close>
theorem header_import_count_counterexample:
  "length (filter is_import header) \<noteq> 4 \<and>
   length (imported (final_state (include_header resolves_all initial))) \<noteq> 4"
  by (simp add: header_def include_header_def initial_def resolves_all_def record_line_def)

text \<open>
  C3, amended. The header has exactly five import directives, and including it at the
  start of a translation unit in which they resolve makes exactly five distinct families
  visible.
\<close>
theorem header_five_imports:
  assumes "\<forall>h\<in>set (imports_of header). found h"
  shows "length (filter is_import header) = 5 \<and>
         (\<exists>s'. include_header found initial = Done s' \<and>
               distinct (imported s') \<and> length (imported s') = 5)"
proof -
  have n: "length (filter is_import header) = 5"
    by (simp add: header_def)
  have g: "macros initial guard = None"
    by (simp add: initial_def)
  from assms have f: "\<forall>h\<in>set react_headers. found h"
    by (simp add: imports_header)
  let ?s' = "initial\<lparr>macros := (macros initial)(guard \<mapsto> []),
            imported := fold add_import react_headers (imported initial),
            executed := executed initial @ guarded_body\<rparr>"
  have "include_header found initial = Done ?s'"
    using g f by (rule include_all_found)
  moreover have "imported ?s' = react_headers"
    by (simp add: initial_def react_headers_def add_import_def)
  moreover have "distinct react_headers" "length react_headers = 5"
    by (simp_all add: react_headers_def)
  ultimately show ?thesis using n by simp
qed

theorem header_five_imports_witness:
  "list_all (\<lambda>h. take 6 h = ''React/'') (imports_of header) \<and>
   length (filter is_import header) = 5 \<and>
   (\<exists>s'. include_header (\<lambda>h. take 6 h = ''React/'') initial = Done s' \<and>
         distinct (imported s') \<and> length (imported s') = 5)"
proof -
  have l: "list_all (\<lambda>h. take 6 h = ''React/'') (imports_of header)"
    by (simp add: header_def)
  then have h: "\<forall>h\<in>set (imports_of header). take 6 h = ''React/''"
    by (simp add: list_all_iff)
  from header_five_imports [OF h] l show ?thesis by blast
qed

text \<open>
  C4. Not every later inclusion is a no-op: in the unit that includes the header, then
  undefines the guard macro, then includes the header again, the second inclusion does
  not leave the state as it is. It carries the guarded group out a second time.
\<close>

theorem later_inclusion_counterexample:
  "unit_run resolves_all [Include_header, Own (Undef guard)] initial =
     Done \<lparr>macros = Map.empty, imported = react_headers, emitted = [],
           executed = guarded_body @ [Undef guard]\<rparr> \<and>
   include_header resolves_all
       \<lparr>macros = Map.empty, imported = react_headers, emitted = [],
         executed = guarded_body @ [Undef guard]\<rparr> \<noteq>
     Done \<lparr>macros = Map.empty, imported = react_headers, emitted = [],
           executed = guarded_body @ [Undef guard]\<rparr> \<and>
   executed (final_state (include_header resolves_all
       \<lparr>macros = Map.empty, imported = react_headers, emitted = [],
         executed = guarded_body @ [Undef guard]\<rparr>)) =
     guarded_body @ [Undef guard] @ guarded_body"
proof -
  have ne: "guarded_body \<noteq> []" by (simp add: guarded_body_def)
  then show ?thesis
    by (simp add: unit_undef_after_include include_after_undef)
qed

text \<open>
  C4, amended. An inclusion of the header, or any number of them in a row, at a point of
  the translation unit where the guard macro is defined is a no-op with no way to fail: it
  succeeds and leaves the state as it is, whatever resolves in the build. Every point
  after a successful inclusion is such a point in a unit whose own lines in between do not
  undefine the guard macro, whatever else they do and however often they include the
  header.
\<close>

theorem later_inclusion_noop:
  "(macros s guard \<noteq> None \<longrightarrow> include_n found' n s = Done s) \<and>
   (include_header found s0 = Done s1 \<and> Own (Undef guard) \<notin> set us \<and>
    unit_steps found us st s1 = Done (st', s2)
      \<longrightarrow> include_n found' n s2 = Done s2)"
proof -
  have a: "include_n found' n s = Done s" if "macros s guard \<noteq> None"
    using that by (rule include_n_guard_defined)
  have b: "include_n found' n s2 = Done s2"
    if "include_header found s0 = Done s1" and "Own (Undef guard) \<notin> set us"
      and "unit_steps found us st s1 = Done (st', s2)"
  proof -
    from that(1) have "macros s1 guard \<noteq> None" by (rule include_Done_guard)
    from this that(2,3) have "macros s2 guard \<noteq> None" by (rule unit_steps_keeps_guard)
    then show ?thesis by (rule include_n_guard_defined)
  qed
  from a b show ?thesis by blast
qed

theorem later_inclusion_noop_witness:
  "macros \<lparr>macros = [guard \<mapsto> [], ''DEBUG'' \<mapsto> ''1''], imported = react_headers,
            emitted = [''int x;''],
            executed = guarded_body @ [Text ''int x;'', Define ''DEBUG'' ''1'']\<rparr> guard \<noteq> None \<and>
   include_header resolves_all initial =
     Done \<lparr>macros = [guard \<mapsto> []], imported = react_headers, emitted = [],
           executed = guarded_body\<rparr> \<and>
   Own (Undef guard) \<notin> set [Own (Text ''int x;''), Include_header, Own (Define ''DEBUG'' ''1'')] \<and>
   unit_steps resolves_all [Own (Text ''int x;''), Include_header, Own (Define ''DEBUG'' ''1'')] []
       \<lparr>macros = [guard \<mapsto> []], imported = react_headers, emitted = [],
         executed = guarded_body\<rparr> =
     Done ([], \<lparr>macros = [guard \<mapsto> [], ''DEBUG'' \<mapsto> ''1''], imported = react_headers,
                emitted = [''int x;''],
                executed = guarded_body @ [Text ''int x;'', Define ''DEBUG'' ''1'']\<rparr>) \<and>
   include_n (\<lambda>h. False) 3
       \<lparr>macros = [guard \<mapsto> [], ''DEBUG'' \<mapsto> ''1''], imported = react_headers,
         emitted = [''int x;''],
         executed = guarded_body @ [Text ''int x;'', Define ''DEBUG'' ''1'']\<rparr> =
     Done \<lparr>macros = [guard \<mapsto> [], ''DEBUG'' \<mapsto> ''1''], imported = react_headers,
           emitted = [''int x;''],
           executed = guarded_body @ [Text ''int x;'', Define ''DEBUG'' ''1'']\<rparr>"
proof -
  let ?S1 = "\<lparr>macros = [guard \<mapsto> []], imported = react_headers, emitted = [],
           executed = guarded_body\<rparr>"
  let ?S2 = "\<lparr>macros = [guard \<mapsto> [], ''DEBUG'' \<mapsto> ''1''], imported = react_headers,
            emitted = [''int x;''],
            executed = guarded_body @ [Text ''int x;'', Define ''DEBUG'' ''1'']\<rparr>"
  let ?U = "[Own (Text ''int x;''), Include_header, Own (Define ''DEBUG'' ''1'')]"
  have g: "macros ?S2 guard \<noteq> None" by (simp add: guard_def)
  have u: "Own (Undef guard) \<notin> set ?U" by simp
  note i = include_initial and e = unit_steps_example
  from later_inclusion_noop [of ?S2 "\<lambda>h. False" 3 resolves_all initial ?S1 ?U "[]" "[]" ?S2]
    g i u e
  have "include_n (\<lambda>h. False) 3 ?S2 = Done ?S2" by blast
  with g i u e show ?thesis by blast
qed

text \<open>
  C5. The guarded group can be processed more than once in a translation unit: the unit
  that includes the header, undefines the guard macro and includes the header again
  processes it twice, and the history of the run holds its directives twice.
\<close>

theorem body_twice_counterexample:
  "body_runs resolves_all [Include_header, Own (Undef guard), Include_header] [] initial = 2 \<and>
   unit_run resolves_all [Include_header, Own (Undef guard), Include_header] initial =
     Done \<lparr>macros = [guard \<mapsto> []], imported = react_headers, emitted = [],
           executed = guarded_body @ [Undef guard] @ guarded_body\<rparr>"
  by (simp add: unit_run_def body_processed_initial body_processed_after_undef
      include_initial include_after_undef record_line_def)

text \<open>
  C5, amended. In every translation unit whose own lines do not undefine the guard macro,
  however many times and wherever the unit includes the header, from any state, under
  any open conditionals and in any build, at most one inclusion processes the guarded
  group; and none does from a point where the guard macro is defined.
\<close>

theorem body_at_most_once:
  assumes "Own (Undef guard) \<notin> set us"
  shows "body_runs found us st s \<le> 1 \<and>
         (macros s guard \<noteq> None \<longrightarrow> body_runs found us st s = 0)"
proof -
  from assms have "body_runs found us st s \<le> 1" by (rule body_runs_le_one)
  moreover have "body_runs found us st s = 0" if "macros s guard \<noteq> None"
    using that assms by (rule body_runs_guard_defined)
  ultimately show ?thesis by blast
qed

theorem body_at_most_once_witness:
  "Own (Undef guard) \<notin> set [Include_header, Own (Define ''DEBUG'' ''1''), Include_header, Include_header] \<and>
   body_runs resolves_all
     [Include_header, Own (Define ''DEBUG'' ''1''), Include_header, Include_header] [] initial = 1 \<and>
   macros \<lparr>macros = [guard \<mapsto> []], imported = react_headers, emitted = [],
           executed = guarded_body\<rparr> guard \<noteq> None \<and>
   body_runs resolves_all
     [Include_header, Own (Define ''DEBUG'' ''1''), Include_header, Include_header] []
     \<lparr>macros = [guard \<mapsto> []], imported = react_headers, emitted = [],
       executed = guarded_body\<rparr> = 0"
proof -
  let ?U = "[Include_header, Own (Define ''DEBUG'' ''1''), Include_header, Include_header]"
  let ?S = "\<lparr>macros = [guard \<mapsto> []], imported = react_headers, emitted = [],
           executed = guarded_body\<rparr>"
  have u: "Own (Undef guard) \<notin> set ?U" by simp
  have g: "macros ?S guard \<noteq> None" by simp
  from body_at_most_once [OF u, of resolves_all "[]" initial]
  have le: "body_runs resolves_all ?U [] initial \<le> 1" by blast
  have "1 \<le> body_runs resolves_all ?U [] initial"
    by (simp add: body_processed_initial include_initial)
  with le have one: "body_runs resolves_all ?U [] initial = 1" by simp
  from body_at_most_once [OF u, of resolves_all "[]" ?S] g
  have "body_runs resolves_all ?U [] ?S = 0" by blast
  with u one g show ?thesis by blast
qed

text \<open>
  C6. Leaving out comments, blank lines and the three lines of the include guard, what
  remains of the file is its five import directives, and an inclusion passes no source
  text of the file's own on to the compiler.
\<close>

theorem header_only_imports:
  "filter (\<lambda>l. \<not> is_comment l \<and> l \<notin> set guard_lines) header = map Import react_headers \<and>
   emitted (final_state (include_header found s)) = emitted s"
proof -
  have "filter (\<lambda>l. \<not> is_comment l \<and> l \<notin> set guard_lines) header = map Import react_headers"
    by (simp add: header_def guard_lines_def react_headers_def)
  then show ?thesis by (simp add: include_emitted)
qed

text \<open>
  C7. Where the guard macro is already defined, with whatever replacement list, an
  inclusion skips the guarded group, also when it is the first one of the translation
  unit: it succeeds, brings in no family and carries out no directive.
\<close>

theorem predefined_guard_skips_body:
  assumes "macros s guard = Some v"
  shows "include_header found s = Done s \<and>
         imported (final_state (include_header found s)) = imported s \<and>
         executed (final_state (include_header found s)) = executed s"
proof -
  from assms have "macros s guard \<noteq> None" by simp
  then have "include_header found s = Done s" by (rule include_guard_defined)
  then show ?thesis by simp
qed

theorem predefined_guard_skips_body_witness:
  "macros (initial\<lparr>macros := [guard \<mapsto> ''1'']\<rparr>) guard = Some ''1'' \<and>
   include_header resolves_all (initial\<lparr>macros := [guard \<mapsto> ''1'']\<rparr>)
     = Done (initial\<lparr>macros := [guard \<mapsto> ''1'']\<rparr>) \<and>
   imported (final_state (include_header resolves_all (initial\<lparr>macros := [guard \<mapsto> ''1'']\<rparr>))) = []"
proof -
  have h: "macros (initial\<lparr>macros := [guard \<mapsto> ''1'']\<rparr>) guard = Some ''1''" by simp
  have i: "imported (initial\<lparr>macros := [guard \<mapsto> ''1'']\<rparr>) = []" by (simp add: initial_def)
  from predefined_guard_skips_body [OF h, of resolves_all] h i show ?thesis by simp
qed

text \<open>
  C8. Where the guard macro is not defined, an inclusion changes the macro table by
  defining the guard with an empty replacement list and nothing else, passes no source
  text on, and the families visible afterwards are those visible before and React's five
  at most. This holds also when the compilation stops on a header that does not resolve.
\<close>

theorem body_defines_only_guard:
  assumes "macros s guard = None"
  shows "macros (final_state (include_header found s)) = (macros s)(guard \<mapsto> []) \<and>
         dom (macros (final_state (include_header found s))) = insert guard (dom (macros s)) \<and>
         emitted (final_state (include_header found s)) = emitted s \<and>
         set (imported s) \<subseteq> set (imported (final_state (include_header found s))) \<and>
         set (imported (final_state (include_header found s)))
           \<subseteq> set (imported s) \<union> set react_headers \<and>
         ((\<forall>h\<in>set react_headers. found h) \<longrightarrow>
            include_header found s =
              Done (s\<lparr>macros := (macros s)(guard \<mapsto> []),
                      imported := fold add_import react_headers (imported s),
                      executed := executed s @ guarded_body\<rparr>))"
proof -
  have m: "macros (final_state (include_header found s)) = (macros s)(guard \<mapsto> [])"
    using assms by (simp add: include_macros)
  obtain k where "imported (final_state (include_header found s))
         = fold add_import (take k react_headers) (imported s)"
    using include_imported by blast
  then have i: "set (imported (final_state (include_header found s)))
         = set (imported s) \<union> set (take k react_headers)"
    by (simp add: set_fold_add_import)
  have "set (take k react_headers) \<subseteq> set react_headers"
    by (rule set_take_subset)
  with i have sub: "set (imported s) \<subseteq> set (imported (final_state (include_header found s)))"
    "set (imported (final_state (include_header found s)))
           \<subseteq> set (imported s) \<union> set react_headers"
    by auto
  have full: "(\<forall>h\<in>set react_headers. found h) \<longrightarrow>
            include_header found s =
              Done (s\<lparr>macros := (macros s)(guard \<mapsto> []),
                      imported := fold add_import react_headers (imported s),
                      executed := executed s @ guarded_body\<rparr>)"
    using assms by (simp add: include_all_found)
  have e: "emitted (final_state (include_header found s)) = emitted s"
    by (rule include_emitted)
  have d: "dom (macros (final_state (include_header found s))) = insert guard (dom (macros s))"
    by (simp add: m)
  from m d e sub full show ?thesis by blast
qed

theorem body_defines_only_guard_witness:
  "macros initial guard = None \<and>
   list_all resolves_all react_headers \<and>
   macros (final_state (include_header resolves_all initial)) = [guard \<mapsto> []] \<and>
   dom (macros (final_state (include_header resolves_all initial))) = {guard} \<and>
   emitted (final_state (include_header resolves_all initial)) = [] \<and>
   include_header resolves_all initial =
     Done (initial\<lparr>macros := [guard \<mapsto> []],
                   imported := react_headers,
                   executed := guarded_body\<rparr>)"
proof -
  have h: "macros initial guard = None" by (simp add: initial_def)
  have l: "list_all resolves_all react_headers"
    by (simp add: react_headers_def resolves_all_def)
  then have f: "\<forall>h\<in>set react_headers. resolves_all h" by (simp add: list_all_iff)
  have i: "macros initial = Map.empty" "emitted initial = []" "executed initial = []"
    "fold add_import react_headers (imported initial) = react_headers"
    by (simp_all add: initial_def react_headers_def add_import_def)
  from body_defines_only_guard [OF h, of resolves_all] f
  have "macros (final_state (include_header resolves_all initial)) = (macros initial)(guard \<mapsto> [])"
    "dom (macros (final_state (include_header resolves_all initial))) = insert guard (dom (macros initial))"
    "emitted (final_state (include_header resolves_all initial)) = emitted initial"
    "include_header resolves_all initial =
              Done (initial\<lparr>macros := (macros initial)(guard \<mapsto> []),
                      imported := fold add_import react_headers (imported initial),
                      executed := executed initial @ guarded_body\<rparr>)"
    by blast+
  with h l i show ?thesis by simp
qed



end
